theory Spec2Isabelle
  imports Main "HOL-Library.Multiset"
begin

section \<open>Shared vocabulary\<close>

text \<open>
  The bots drive a browser through asynchronous calls. A call that is awaited either
  resolves with a value, rejects (the \<^verbatim>\<open>await\<close> throws), or is still pending because
  the event it waits for has not happened. Objects are mutated in place, so a function
  that rejects still returns the state it left behind. Console output is not modelled.
  \<^verbatim>\<open>Date.now()\<close> is a parameter of every function that reads the clock, and the outcome
  of every driver call is a parameter of the function that makes the call.
\<close>

datatype 'a outcome = Resolved 'a | Rejected | Pending

type_synonym handle = nat

text \<open>Calls that leave the process: what the driver and the operating system are asked to do.\<close>

datatype effect =
    SpawnFfmpeg handle
  | KillSigint handle
  | ClickLeave
  | CloseBrowser
  | GetStream handle
  | CreateWriteStream handle
  | DestroyStream handle
  | CloseFile handle

section \<open>The Meet bot (src/bots/meet/src/bot.ts)\<close>

text \<open>
  \<^verbatim>\<open>type Participant = { id: string; name: string; observer?: MutationObserver }\<close>.
  The field \<^verbatim>\<open>id\<close> is written \<open>id'\<close> here (\<open>id\<close> is the identity function of HOL).
\<close>

record Participant =
  id' :: string
  name :: string

text \<open>
  The fields of class \<^verbatim>\<open>MeetsBot\<close> that the tracker, the recorder, the termination loop
  and the cleanup read or write. \<^verbatim>\<open>timeAloneStarted\<close> is a number initialised to
  \<^verbatim>\<open>Infinity\<close>: \<open>None\<close> stands for \<^verbatim>\<open>Infinity\<close>, \<open>Some t\<close> for a value of \<^verbatim>\<open>Date.now()\<close>.
  \<^verbatim>\<open>lastActivity\<close> is \<^verbatim>\<open>number | undefined\<close>, \<^verbatim>\<open>ffmpegProcess\<close> is a child process or
  \<^verbatim>\<open>null\<close>, \<^verbatim>\<open>browser\<close> and \<^verbatim>\<open>page\<close> are undefined until \<^verbatim>\<open>launchBrowser\<close> has run.
\<close>

record MeetsBot =
  browser :: "handle option"
  page :: "handle option"
  kicked :: bool
  participants :: "Participant list"
  startedRecording :: bool
  timeAloneStarted :: "int option"
  lastActivity :: "int option"
  ffmpegProcess :: "handle option"

text \<open>\<^verbatim>\<open>this.settings.automaticLeave\<close>; \<^verbatim>\<open>everyoneLeftTimeout\<close> is read with a default.\<close>

record AutomaticLeave =
  waitingRoomTimeout :: int
  everyoneLeftTimeout :: "int option"
  inactivityTimeout :: int

subsection \<open>Tracker callbacks (lines 652-670)\<close>

text \<open>
  \<^verbatim>\<open>onParticipantJoin\<close> pushes the participant, then awaits \<^verbatim>\<open>onEvent\<close>. The first
  argument says whether that \<^verbatim>\<open>onEvent\<close> call resolves.
\<close>

definition onParticipantJoin :: "bool \<Rightarrow> Participant \<Rightarrow> MeetsBot \<Rightarrow> unit outcome \<times> MeetsBot" where
  "onParticipantJoin onEventOk participant b =
     (if onEventOk then Resolved () else Rejected,
      b\<lparr>participants := participants b @ [participant]\<rparr>)"

text \<open>
  \<^verbatim>\<open>onParticipantLeave\<close> awaits \<^verbatim>\<open>onEvent\<close> first; when that rejects nothing else runs.
  Otherwise it filters the roster by id and recomputes \<^verbatim>\<open>timeAloneStarted\<close> from the
  length of the filtered roster.
\<close>

definition onParticipantLeave ::
  "bool \<Rightarrow> int \<Rightarrow> Participant \<Rightarrow> MeetsBot \<Rightarrow> unit outcome \<times> MeetsBot" where
  "onParticipantLeave onEventOk now participant b =
     (if onEventOk then
        (let ps = filter (\<lambda>p. id' p \<noteq> id' participant) (participants b) in
         (Resolved (),
          b\<lparr>participants := ps,
              timeAloneStarted := (if length ps = 1 then Some now else None)\<rparr>))
      else (Rejected, b))"

subsection \<open>Speaker timeframes (lines 207-239)\<close>

text \<open>
  \<^verbatim>\<open>SpeakerTimeframe = { speakerName, start, end }\<close>; \<^verbatim>\<open>end\<close> is written \<open>end'\<close>.
  Timestamps are differences of \<^verbatim>\<open>Date.now()\<close> values: integers.
\<close>

record SpeakerTimeframe =
  speakerName :: string
  start :: int
  end' :: int

definition utteranceThresholdMs :: int where
  "utteranceThresholdMs = 3000"

text \<open>
  The inner loop over one speaker's timestamps from index 1 on, with the local variables
  \<^verbatim>\<open>start\<close> and \<^verbatim>\<open>end\<close> and the shared output array, followed by the push of the last
  segment (line 234).
\<close>

fun speakerLoop ::
  "string \<Rightarrow> int \<Rightarrow> int \<Rightarrow> int list \<Rightarrow> SpeakerTimeframe list \<Rightarrow> SpeakerTimeframe list" where
  "speakerLoop speaker s e [] processedTimeframes =
     processedTimeframes @ [\<lparr>speakerName = speaker, start = s, end' = e\<rparr>]"
| "speakerLoop speaker s e (currentTimeframe # rest) processedTimeframes =
     (if currentTimeframe - e < utteranceThresholdMs
      then speakerLoop speaker s currentTimeframe rest processedTimeframes
      else if e - s > 500
      then speakerLoop speaker currentTimeframe currentTimeframe rest
             (processedTimeframes @ [\<lparr>speakerName = speaker, start = s, end' = e\<rparr>])
      else speakerLoop speaker currentTimeframe currentTimeframe rest processedTimeframes)"

text \<open>
  The outer loop over \<^verbatim>\<open>Object.entries(this.registeredActivityTimestamps)\<close>. An entry is
  created with its first timestamp and only ever pushed to (its type is \<^verbatim>\<open>[number]\<close>), so
  an entry is a speaker name, the timestamp at index 0 and the timestamps after it.
\<close>

type_synonym activity_entry = "string \<times> int \<times> int list"

fun entriesLoop :: "activity_entry list \<Rightarrow> SpeakerTimeframe list \<Rightarrow> SpeakerTimeframe list" where
  "entriesLoop [] processedTimeframes = processedTimeframes"
| "entriesLoop ((speaker, t0, rest) # entries) processedTimeframes =
     entriesLoop entries (speakerLoop speaker t0 t0 rest processedTimeframes)"

text \<open>The comparator \<^verbatim>\<open>(a, b) => a.start - b.start || a.end - b.end\<close>.\<close>

definition compareTimeframes :: "SpeakerTimeframe \<Rightarrow> SpeakerTimeframe \<Rightarrow> int" where
  "compareTimeframes a b =
     (if start a - start b \<noteq> 0 then start a - start b else end' a - end' b)"

text \<open>
  \<^verbatim>\<open>Array.prototype.sort\<close> is a builtin of the language, specified as a stable sort by the
  comparator: an insertion sort that puts an element before the first one it does not
  compare greater than.
\<close>

fun insertBy :: "('a \<Rightarrow> 'a \<Rightarrow> int) \<Rightarrow> 'a \<Rightarrow> 'a list \<Rightarrow> 'a list" where
  "insertBy cmp x [] = [x]"
| "insertBy cmp x (y # ys) = (if cmp x y \<le> 0 then x # y # ys else y # insertBy cmp x ys)"

fun arraySort :: "('a \<Rightarrow> 'a \<Rightarrow> int) \<Rightarrow> 'a list \<Rightarrow> 'a list" where
  "arraySort cmp [] = []"
| "arraySort cmp (x # xs) = insertBy cmp x (arraySort cmp xs)"

definition getSpeakerTimeframes :: "activity_entry list \<Rightarrow> SpeakerTimeframe list" where
  "getSpeakerTimeframes entries = arraySort compareTimeframes (entriesLoop entries [])"

subsection \<open>The specification of speaker timeframes, in its own words\<close>

text \<open>
  Section 3 of the specification: consecutive timestamps separated by less than 3000 ms
  are folded into one timeframe; a folded timeframe is emitted only if its duration
  exceeds 500 ms or it is the last segment for that speaker. \<open>spec_segments\<close> cuts a
  timestamp sequence into its runs, \<open>spec_interval\<close> is the start and end of a run,
  \<open>spec_emitted\<close> keeps the runs that are emitted.
\<close>

fun spec_segments :: "int list \<Rightarrow> int list list" where
  "spec_segments [] = []"
| "spec_segments [t] = [[t]]"
| "spec_segments (t # u # us) =
     (if u - t < 3000
      then (case spec_segments (u # us) of [] \<Rightarrow> [[t]] | g # gs \<Rightarrow> (t # g) # gs)
      else [t] # spec_segments (u # us))"

definition spec_interval :: "int list \<Rightarrow> int \<times> int" where
  "spec_interval g = (hd g, last g)"

definition spec_emitted :: "(int \<times> int) list \<Rightarrow> (int \<times> int) list" where
  "spec_emitted ivs = filter (\<lambda>iv. snd iv - fst iv > 500) (butlast ivs) @ [last ivs]"

definition spec_timeframes :: "string \<Rightarrow> int list \<Rightarrow> SpeakerTimeframe list" where
  "spec_timeframes speaker ts =
     map (\<lambda>iv. \<lparr>speakerName = speaker, start = fst iv, end' = snd iv\<rparr>)
       (spec_emitted (map spec_interval (spec_segments ts)))"

text \<open>Every two neighbours of a run are less than 3000 ms apart.\<close>

fun close_chain :: "int list \<Rightarrow> bool" where
  "close_chain [] = True"
| "close_chain [t] = True"
| "close_chain (t # u # us) = (u - t < 3000 \<and> close_chain (u # us))"

text \<open>Each run starts 3000 ms or more after the end of the run before it.\<close>

fun wide_gaps :: "int list list \<Rightarrow> bool" where
  "wide_gaps [] = True"
| "wide_gaps [g] = True"
| "wide_gaps (g # h # gs) = (hd h - last g \<ge> 3000 \<and> wide_gaps (h # gs))"

text \<open>Ascending by \<open>(start, end)\<close>.\<close>

definition timeframe_le :: "SpeakerTimeframe \<Rightarrow> SpeakerTimeframe \<Rightarrow> bool" where
  "timeframe_le a b = (start a < start b \<or> (start a = start b \<and> end' a \<le> end' b))"

subsection \<open>Recording (lines 446-535)\<close>

text \<open>
  \<^verbatim>\<open>startRecording\<close> returns at once when a process is stored; otherwise it spawns ffmpeg
  and stores the process. The first argument is the process that \<^verbatim>\<open>spawn\<close> returns.
\<close>

definition startRecording :: "handle \<Rightarrow> MeetsBot \<Rightarrow> MeetsBot \<times> effect list" where
  "startRecording spawned b =
     (case ffmpegProcess b of
        Some running \<Rightarrow> (b, [])
      | None \<Rightarrow> (b\<lparr>ffmpegProcess := Some spawned\<rparr>, [SpawnFfmpeg spawned]))"

text \<open>
  \<^verbatim>\<open>this.ffmpegProcess.kill('SIGINT')\<close> (line 511) runs inside the promise executor before
  the \<^verbatim>\<open>exit\<close> and \<^verbatim>\<open>error\<close> listeners of \<^verbatim>\<open>stopRecording\<close> are attached (lines 516 and
  527), and \<^verbatim>\<open>startRecording\<close> attaches no \<^verbatim>\<open>error\<close> listener. Either the signal is
  handed to the process, or the kill fails: then the process object emits \<^verbatim>\<open>error\<close> inside
  \<^verbatim>\<open>kill\<close>, no listener takes it, the emit throws inside the executor and the promise is
  rejected.
\<close>

datatype kill_result = Signalled | KillFailed

text \<open>
  What the encoder process emits first once the listeners are attached: \<^verbatim>\<open>exit\<close> with a
  code (or \<^verbatim>\<open>null\<close>), or \<^verbatim>\<open>error\<close>. The \<^verbatim>\<open>exit\<close> listener that \<^verbatim>\<open>startRecording\<close>
  installed runs first and clears \<^verbatim>\<open>ffmpegProcess\<close>.
\<close>

datatype encoder_event = Exit "int option" | Error

text \<open>
  \<^verbatim>\<open>stopRecording\<close>: the promise is resolved with 1 at once when no process is stored;
  otherwise the process is sent SIGINT, and when that succeeds the promise is resolved by
  the first event of the encoder (\<open>None\<close>: the encoder has emitted nothing so far).
\<close>

definition stopRecording ::
  "kill_result \<Rightarrow> encoder_event option \<Rightarrow> MeetsBot \<Rightarrow> int outcome \<times> MeetsBot \<times> effect list" where
  "stopRecording killed ev b =
     (case ffmpegProcess b of
        None \<Rightarrow> (Resolved 1, b, [])
      | Some p \<Rightarrow>
          (case killed of
             KillFailed \<Rightarrow> (Rejected, b, [KillSigint p])
           | Signalled \<Rightarrow>
               (case ev of
                  None \<Rightarrow> (Pending, b, [KillSigint p])
                | Some (Exit code) \<Rightarrow>
                    (Resolved (if code = Some 0 then 0 else 1), b\<lparr>ffmpegProcess := None\<rparr>,
                     [KillSigint p])
                | Some Error \<Rightarrow> (Resolved 1, b, [KillSigint p]))))"

subsection \<open>Cleanup and leaving (lines 933-968)\<close>

record cleanup_env =
  killResult :: kill_result
  encoderEvent :: "encoder_event option"
  browserCloseOk :: bool

text \<open>
  \<^verbatim>\<open>endLife\<close> awaits \<^verbatim>\<open>stopRecording\<close>, then closes the browser when one is stored.
  Neither call is guarded: when one of them rejects, \<^verbatim>\<open>endLife\<close> rejects.
\<close>

definition endLife :: "cleanup_env \<Rightarrow> MeetsBot \<Rightarrow> unit outcome \<times> MeetsBot \<times> effect list" where
  "endLife env b =
     (case stopRecording (killResult env) (encoderEvent env) b of
        (Pending, b1, fx) \<Rightarrow> (Pending, b1, fx)
      | (Rejected, b1, fx) \<Rightarrow> (Rejected, b1, fx)
      | (Resolved status, b1, fx) \<Rightarrow>
          (case browser b1 of
             None \<Rightarrow> (Resolved (), b1, fx)
           | Some br \<Rightarrow>
               (if browserCloseOk env then Resolved () else Rejected, b1, fx @ [CloseBrowser])))"

text \<open>
  \<^verbatim>\<open>leaveMeeting\<close> clicks the leave button inside a \<^verbatim>\<open>try\<close> whose \<^verbatim>\<open>catch\<close> only logs
  (the first argument says whether the click succeeds; without a page the call throws
  before any click), then awaits \<^verbatim>\<open>endLife\<close> and returns 0.
\<close>

definition leaveMeeting ::
  "bool \<Rightarrow> cleanup_env \<Rightarrow> MeetsBot \<Rightarrow> int outcome \<times> MeetsBot \<times> effect list" where
  "leaveMeeting leaveClickOk env b =
     (let click = (case page b of None \<Rightarrow> [] | Some pg \<Rightarrow> [ClickLeave]) in
      case endLife env b of
        (Resolved u, b1, fx) \<Rightarrow> (Resolved 0, b1, click @ fx)
      | (Rejected, b1, fx) \<Rightarrow> (Rejected, b1, click @ fx)
      | (Pending, b1, fx) \<Rightarrow> (Pending, b1, click @ fx))"

subsection \<open>The termination loop of meetingActions (lines 873-928)\<close>

text \<open>
  \<^verbatim>\<open>checkKicked\<close>: three probes, each with a \<^verbatim>\<open>catch\<close> that supplies a default
  (\<open>None\<close>: the probe rejected).
\<close>

record kick_probes =
  gotKickedCount :: "nat option"
  leaveButtonHidden :: "bool option"
  removedTextVisible :: "bool option"

definition checkKicked :: "kick_probes \<Rightarrow> bool" where
  "checkKicked pr =
     (if (case gotKickedCount pr of None \<Rightarrow> 0 | Some n \<Rightarrow> n) > 0 then True
      else if (case leaveButtonHidden pr of None \<Rightarrow> True | Some h \<Rightarrow> h) then True
      else if (case removedTextVisible pr of None \<Rightarrow> False | Some v \<Rightarrow> v) then True
      else False)"

text \<open>
  \<^verbatim>\<open>handleInfoPopup\<close>: no popup within the timeout (returns), or a popup whose click
  succeeds, or a popup whose click throws.
\<close>

datatype popup = NoPopup | PopupClicked | PopupClickFailed

text \<open>What one iteration of the loop reads from outside the bot.\<close>

record tick_env =
  nowAloneCheck :: int
  probes :: kick_probes
  nowActivityCheck :: int
  infoPopup :: popup

text \<open>
  The condition of the first \<^verbatim>\<open>break\<close>: the roster has length 1 and
  \<^verbatim>\<open>Date.now() - this.timeAloneStarted > leaveMs\<close>, where \<^verbatim>\<open>leaveMs\<close> defaults to 30000.
  With \<^verbatim>\<open>timeAloneStarted = Infinity\<close> the difference is \<^verbatim>\<open>-Infinity\<close> and the test is false.
\<close>

definition aloneTimeoutDue :: "AutomaticLeave \<Rightarrow> int \<Rightarrow> MeetsBot \<Rightarrow> bool" where
  "aloneTimeoutDue al now b =
     (length (participants b) = 1 \<and>
      (case timeAloneStarted b of
         None \<Rightarrow> False
       | Some t \<Rightarrow> now - t > (case everyoneLeftTimeout al of None \<Rightarrow> 30000 | Some ms \<Rightarrow> ms)))"

text \<open>
  The condition of the third \<^verbatim>\<open>break\<close>: more than one participant, a truthy
  \<^verbatim>\<open>lastActivity\<close> (defined and not 0), and more than \<^verbatim>\<open>inactivityTimeout\<close> since then.
\<close>

definition inactivityDue :: "AutomaticLeave \<Rightarrow> int \<Rightarrow> MeetsBot \<Rightarrow> bool" where
  "inactivityDue al now b =
     (length (participants b) > 1 \<and>
      (case lastActivity b of
         None \<Rightarrow> False
       | Some t \<Rightarrow> t \<noteq> 0 \<and> now - t > inactivityTimeout al))"

text \<open>
  The loop has three \<^verbatim>\<open>break\<close> statements; the code records no end reason beyond the
  \<^verbatim>\<open>kicked\<close> flag, so the reason is the label of the \<^verbatim>\<open>break\<close> taken.
\<close>

datatype loop_exit = AloneTimeout | Kicked | InactivityTimeout

datatype loop_step = Break loop_exit | Continue | Throws

definition loopIteration :: "AutomaticLeave \<Rightarrow> tick_env \<Rightarrow> MeetsBot \<Rightarrow> loop_step \<times> MeetsBot" where
  "loopIteration al env b =
     (if aloneTimeoutDue al (nowAloneCheck env) b then (Break AloneTimeout, b)
      else if checkKicked (probes env) then (Break Kicked, b\<lparr>kicked := True\<rparr>)
      else if inactivityDue al (nowActivityCheck env) b then (Break InactivityTimeout, b)
      else (case infoPopup env of
              PopupClickFailed \<Rightarrow> (Throws, b)
            | NoPopup \<Rightarrow> (Continue, b)
            | PopupClicked \<Rightarrow> (Continue, b)))"

text \<open>
  \<^verbatim>\<open>while (true)\<close>: the loop body writes the bot only when it breaks, and the tracker
  callbacks write it between iterations, so the run of the loop is the list of what each
  iteration finds: its readings and the bot as it is then. \<open>None\<close>: every iteration of
  the list continued, the loop is still running.
\<close>

fun terminationLoop ::
  "AutomaticLeave \<Rightarrow> (tick_env \<times> MeetsBot) list \<Rightarrow> (loop_step \<times> MeetsBot) option" where
  "terminationLoop al [] = None"
| "terminationLoop al ((env, b) # later) =
     (case loopIteration al env b of
        (Continue, b1) \<Rightarrow> terminationLoop al later
      | (Break reason, b1) \<Rightarrow> Some (Break reason, b1)
      | (Throws, b1) \<Rightarrow> Some (Throws, b1))"

text \<open>
  After the loop: \<^verbatim>\<open>try { await this.leaveMeeting(); return 0 } catch { await this.endLife(); return 1 }\<close>.
  The second \<^verbatim>\<open>endLife\<close> has readings of its own.
\<close>

definition exitActions ::
  "bool \<Rightarrow> cleanup_env \<Rightarrow> cleanup_env \<Rightarrow> MeetsBot \<Rightarrow> int outcome \<times> MeetsBot \<times> effect list" where
  "exitActions leaveClickOk env1 env2 b =
     (case leaveMeeting leaveClickOk env1 b of
        (Resolved status, b1, fx) \<Rightarrow> (Resolved 0, b1, fx)
      | (Pending, b1, fx) \<Rightarrow> (Pending, b1, fx)
      | (Rejected, b1, fx) \<Rightarrow>
          (case endLife env2 b1 of
             (Resolved u, b2, fx2) \<Rightarrow> (Resolved 1, b2, fx @ fx2)
           | (Rejected, b2, fx2) \<Rightarrow> (Rejected, b2, fx @ fx2)
           | (Pending, b2, fx2) \<Rightarrow> (Pending, b2, fx @ fx2)))"

text \<open>
  \<^verbatim>\<open>meetingActions\<close> from the loop on. An exception of the loop body leaves the function
  before the exit actions; \<open>None\<close>: the loop is still running.
\<close>

definition meetingActionsFromLoop ::
  "AutomaticLeave \<Rightarrow> (tick_env \<times> MeetsBot) list \<Rightarrow> bool \<Rightarrow> cleanup_env \<Rightarrow> cleanup_env \<Rightarrow>
     (int outcome \<times> MeetsBot \<times> effect list) option" where
  "meetingActionsFromLoop al run leaveClickOk env1 env2 =
     (case terminationLoop al run of
        None \<Rightarrow> None
      | Some (Throws, b) \<Rightarrow> Some (Rejected, b, [])
      | Some (Continue, b) \<Rightarrow> None
      | Some (Break reason, b) \<Rightarrow> Some (exitActions leaveClickOk env1 env2 b))"

subsection \<open>Joining (lines 279-384)\<close>

datatype join_error = WaitingRoomTimeoutError | OtherError

text \<open>
  A wait of the driver for an element, bounded by a timeout: the element appears, or the
  wait rejects with a timeout, or it rejects for another reason (the page is gone).
\<close>

datatype wait_result = Appeared | TimedOut | WaitFailed

text \<open>
  The outcomes of the awaited driver calls of \<^verbatim>\<open>joinMeeting\<close>, in order: launching the
  browser; the init script and the mouse moves; navigation; the name field appearing
  within 15 s and being filled; the race for one of the two entry buttons within 60 s and
  the click on it; the wait for the leave button, as the driver answers it for each
  timeout it can be given; the \<^verbatim>\<open>JOINING_CALL\<close> event. The clicks that turn microphone
  and camera off are inside \<^verbatim>\<open>try\<close> blocks and decide nothing.
\<close>

record join_env =
  launchOk :: bool
  prepareOk :: bool
  gotoOk :: bool
  nameFieldOk :: bool
  entryButtonOk :: bool
  leaveButtonWait :: "int \<Rightarrow> wait_result"
  joinEventOk :: bool

text \<open>
  The wait for the leave button is given \<^verbatim>\<open>waitingRoomTimeout\<close>; its \<^verbatim>\<open>catch\<close> takes every
  rejection and throws \<^verbatim>\<open>WaitingRoomTimeoutError\<close>.
\<close>

definition joinMeeting :: "AutomaticLeave \<Rightarrow> join_env \<Rightarrow> join_error + int" where
  "joinMeeting al env =
     (if launchOk env \<and> prepareOk env \<and> gotoOk env \<and> nameFieldOk env \<and> entryButtonOk env
      then (let timeout = waitingRoomTimeout al in
            case leaveButtonWait env timeout of
              Appeared \<Rightarrow> (if joinEventOk env then Inr 0 else Inl OtherError)
            | TimedOut \<Rightarrow> Inl WaitingRoomTimeoutError
            | WaitFailed \<Rightarrow> Inl WaitingRoomTimeoutError)
      else Inl OtherError)"

section \<open>The Teams bot (src/bots/teams/src/bot.ts)\<close>

text \<open>
  \<^verbatim>\<open>TeamsBot.joinMeeting\<close> (lines 132-178): launch, navigation and the join procedure are
  not guarded. \<^verbatim>\<open>isWaitingRoom\<close> is the constant \<^verbatim>\<open>true\<close>, so the timeout of the wait for
  the leave button is \<^verbatim>\<open>waitingRoomTimeout\<close>; every rejection of that wait becomes
  \<^verbatim>\<open>WaitingRoomTimeoutError\<close>.
\<close>

record teams_join_env =
  teamsLaunchOk :: bool
  teamsGotoOk :: bool
  joinProcedureOk :: bool
  teamsLeaveButtonWait :: "int \<Rightarrow> wait_result"

definition teamsJoinMeeting :: "AutomaticLeave \<Rightarrow> teams_join_env \<Rightarrow> join_error + unit" where
  "teamsJoinMeeting al env =
     (if teamsLaunchOk env \<and> teamsGotoOk env \<and> joinProcedureOk env
      then (let isWaitingRoom = True;
                timeout = (if isWaitingRoom then waitingRoomTimeout al else 30000) in
            case teamsLeaveButtonWait env timeout of
              Appeared \<Rightarrow> Inr ()
            | TimedOut \<Rightarrow> Inl WaitingRoomTimeoutError
            | WaitFailed \<Rightarrow> Inl WaitingRoomTimeoutError)
      else Inl OtherError)"

text \<open>
  The fields of \<^verbatim>\<open>TeamsBot\<close> that its tracker, its recorder and its cleanup read or
  write. The roster is a list of names; \<^verbatim>\<open>timeAloneStarted\<close> is \<open>None\<close> for \<^verbatim>\<open>Infinity\<close>.
\<close>

record TeamsBot =
  teamsBrowser :: "handle option"
  teamsPage :: "handle option"
  teamsFile :: "handle option"
  teamsStream :: "handle option"
  teamsParticipants :: "string list"
  teamsTimeAloneStarted :: "int option"
  ended :: bool

text \<open>
  \<^verbatim>\<open>TeamsBot.endLife\<close> (lines 338-376): returns at once when \<^verbatim>\<open>ended\<close> is set. Otherwise it
  sets the flag, clicks the leave button inside a \<^verbatim>\<open>try\<close>, closes and clears the file,
  clears the two intervals, destroys the stream (\<^verbatim>\<open>stopRecording\<close>) and closes the browser,
  each when it is there.
\<close>

definition teamsEndLife :: "bool \<Rightarrow> TeamsBot \<Rightarrow> unit outcome \<times> TeamsBot \<times> effect list" where
  "teamsEndLife closeOk t =
     (if ended t then (Resolved (), t, [])
      else
        (let click = (case teamsPage t of None \<Rightarrow> [] | Some pg \<Rightarrow> [ClickLeave]);
             closeFile = (case teamsFile t of None \<Rightarrow> [] | Some f \<Rightarrow> [CloseFile f]);
             destroy = (case teamsStream t of None \<Rightarrow> [] | Some s \<Rightarrow> [DestroyStream s]);
             t1 = t\<lparr>ended := True, teamsFile := None\<rparr>
         in case teamsBrowser t of
              None \<Rightarrow> (Resolved (), t1, click @ closeFile @ destroy)
            | Some br \<Rightarrow>
                (if closeOk then Resolved () else Rejected, t1,
                 click @ closeFile @ destroy @ [CloseBrowser])))"

text \<open>
  \<^verbatim>\<open>TeamsBot.leave\<close> (lines 514-520): the click on the leave button, and \<^verbatim>\<open>endLife\<close> when
  the click throws (without a page it throws before any click).
\<close>

definition teamsLeave :: "bool \<Rightarrow> bool \<Rightarrow> TeamsBot \<Rightarrow> unit outcome \<times> TeamsBot \<times> effect list" where
  "teamsLeave clickOk closeOk t =
     (case teamsPage t of
        None \<Rightarrow> teamsEndLife closeOk t
      | Some pg \<Rightarrow>
          (if clickOk then (Resolved (), t, [ClickLeave])
           else (case teamsEndLife closeOk t of (r, t1, fx) \<Rightarrow> (r, t1, ClickLeave # fx))))"

text \<open>
  \<^verbatim>\<open>TeamsBot.aloneCheck\<close> (lines 378-390): leaves when
  \<^verbatim>\<open>Date.now() - this.timeAloneStarted > leaveMs\<close>, \<^verbatim>\<open>leaveMs\<close> defaulting to 30000.
\<close>

definition aloneCheck ::
  "AutomaticLeave \<Rightarrow> int \<Rightarrow> bool \<Rightarrow> bool \<Rightarrow> TeamsBot \<Rightarrow> unit outcome \<times> TeamsBot \<times> effect list" where
  "aloneCheck al now clickOk closeOk t =
     (if (case teamsTimeAloneStarted t of
            None \<Rightarrow> False
          | Some s \<Rightarrow> now - s > (case everyoneLeftTimeout al of None \<Rightarrow> 30000 | Some ms \<Rightarrow> ms))
      then teamsLeave clickOk closeOk t
      else (Resolved (), t, []))"

text \<open>
  What one roster poll reads: the names that \<^verbatim>\<open>page.evaluate\<close> returns (\<open>None\<close>: it
  throws), \<^verbatim>\<open>Date.now()\<close> in \<^verbatim>\<open>updateParticipants\<close> and in \<^verbatim>\<open>aloneCheck\<close>, and the outcomes
  of the leave click and of the browser close should \<^verbatim>\<open>aloneCheck\<close> leave.
\<close>

record poll_env =
  evaluated :: "string list option"
  pollNow :: int
  checkNow :: int
  pollClickOk :: bool
  pollCloseOk :: bool

text \<open>
  \<^verbatim>\<open>updateParticipants\<close> (lines 240-278): inside a \<^verbatim>\<open>try\<close> whose \<^verbatim>\<open>catch\<close> only logs, it
  stores the polled roster, clears \<^verbatim>\<open>timeAloneStarted\<close> when the roster has more than one
  entry, sets it to the current time when it is \<^verbatim>\<open>Infinity\<close> otherwise, and calls
  \<^verbatim>\<open>aloneCheck\<close> without awaiting it.
\<close>

definition updateParticipants ::
  "AutomaticLeave \<Rightarrow> poll_env \<Rightarrow> TeamsBot \<Rightarrow> TeamsBot \<times> effect list" where
  "updateParticipants al env t =
     (case evaluated env of
        None \<Rightarrow> (t, [])
      | Some currentParticipants \<Rightarrow>
          (let t1 = t\<lparr>teamsParticipants := currentParticipants,
                      teamsTimeAloneStarted :=
                        (if length currentParticipants > 1 then None
                         else (case teamsTimeAloneStarted t of
                                 None \<Rightarrow> Some (pollNow env)
                               | Some s \<Rightarrow> Some s))\<rparr>
           in case aloneCheck al (checkNow env) (pollClickOk env) (pollCloseOk env) t1 of
                (r, t2, fx) \<Rightarrow> (t2, fx)))"

text \<open>
  \<^verbatim>\<open>TeamsBot.startRecording\<close> (lines 195-212): throws without a page; otherwise it awaits
  \<^verbatim>\<open>getStream\<close> (\<open>None\<close>: the call rejects), creates the file stream and pipes. Its
  comment says that only one recording is active at a time; the body has no test for it.
\<close>

definition teamsStartRecording ::
  "handle option \<Rightarrow> handle \<Rightarrow> TeamsBot \<Rightarrow> unit outcome \<times> TeamsBot \<times> effect list" where
  "teamsStartRecording gotStream newFile t =
     (case teamsPage t of
        None \<Rightarrow> (Rejected, t, [])
      | Some pg \<Rightarrow>
          (case gotStream of
             None \<Rightarrow> (Rejected, t, [])
           | Some s \<Rightarrow>
               (Resolved (), t\<lparr>teamsStream := Some s, teamsFile := Some newFile\<rparr>,
                [GetStream s, CreateWriteStream newFile])))"

section \<open>The Zoom bot (src/unnamed/part_000)\<close>

record ZoomBot =
  zoomBrowser :: "handle option"
  zoomPage :: "handle option"
  zoomFile :: "handle option"
  zoomStream :: "handle option"

text \<open>
  \<^verbatim>\<open>ZoomBot.startRecording\<close> (lines 209-220): throws without a page; otherwise it awaits
  \<^verbatim>\<open>getStream\<close> (\<open>None\<close>: the call rejects), creates the file stream and pipes. There is no
  test of \<^verbatim>\<open>this.stream\<close> before.
\<close>

definition zoomStartRecording ::
  "handle option \<Rightarrow> handle \<Rightarrow> ZoomBot \<Rightarrow> unit outcome \<times> ZoomBot \<times> effect list" where
  "zoomStartRecording gotStream newFile z =
     (case zoomPage z of
        None \<Rightarrow> (Rejected, z, [])
      | Some pg \<Rightarrow>
          (case gotStream of
             None \<Rightarrow> (Rejected, z, [])
           | Some s \<Rightarrow>
               (Resolved (), z\<lparr>zoomStream := Some s, zoomFile := Some newFile\<rparr>,
                [GetStream s, CreateWriteStream newFile])))"

section \<open>Concrete sessions\<close>

definition botSelf :: Participant where
  "botSelf = \<lparr>id' = ''spaces/1/devices/1'', name = ''MeetingBot''\<rparr>"

definition alice :: Participant where
  "alice = \<lparr>id' = ''spaces/1/devices/2'', name = ''Alice''\<rparr>"

definition bob :: Participant where
  "bob = \<lparr>id' = ''spaces/1/devices/3'', name = ''Bob''\<rparr>"

text \<open>A bot in a meeting, alone since 1000 ms, its encoder already gone.\<close>

definition aloneBot :: MeetsBot where
  "aloneBot = \<lparr>browser = Some 1, page = Some 2, kicked = False, participants = [botSelf],
     startedRecording = True, timeAloneStarted = Some 1000, lastActivity = Some 900,
     ffmpegProcess = None\<rparr>"

text \<open>A bot in a meeting with Alice, recording with encoder process 7.\<close>

definition crowdedBot :: MeetsBot where
  "crowdedBot = \<lparr>browser = Some 1, page = Some 2, kicked = False,
     participants = [botSelf, alice], startedRecording = True, timeAloneStarted = None,
     lastActivity = Some 900, ffmpegProcess = Some 7\<rparr>"

text \<open>A bot that never launched a browser and never started a recording.\<close>

definition freshBot :: MeetsBot where
  "freshBot = \<lparr>browser = None, page = None, kicked = False, participants = [],
     startedRecording = False, timeAloneStarted = None, lastActivity = None,
     ffmpegProcess = None\<rparr>"

definition leavePolicy :: AutomaticLeave where
  "leavePolicy = \<lparr>waitingRoomTimeout = 5000, everyoneLeftTimeout = Some 2000,
     inactivityTimeout = 300000\<rparr>"

text \<open>
  An iteration at 400 s in which the forced-removal button is on the page and the leave
  button is hidden.
\<close>

definition kickedTick :: tick_env where
  "kickedTick = \<lparr>nowAloneCheck = 400000,
     probes = \<lparr>gotKickedCount = Some 1, leaveButtonHidden = Some True,
                removedTextVisible = Some False\<rparr>,
     nowActivityCheck = 401000, infoPopup = NoPopup\<rparr>"

text \<open>Cleanup readings: the encoder exits with code 0, the browser closes (or does not).\<close>

definition cleanExit :: cleanup_env where
  "cleanExit = \<lparr>killResult = Signalled, encoderEvent = Some (Exit (Some 0)),
     browserCloseOk = True\<rparr>"

definition closeFails :: cleanup_env where
  "closeFails = \<lparr>killResult = Signalled, encoderEvent = Some (Exit (Some 0)),
     browserCloseOk = False\<rparr>"

text \<open>
  A driver on whose page the element shows a given time after the wait began: a wait
  with a timeout of at least that time finds it, a shorter one times out.
\<close>

definition showsAfter :: "int \<Rightarrow> int \<Rightarrow> wait_result" where
  "showsAfter ms timeout = (if ms \<le> timeout then Appeared else TimedOut)"

text \<open>
  A join in which every step succeeds and the host admits the bot after 8 s, and a
  policy that waits 10 s (\<open>leavePolicy\<close> waits 5 s).
\<close>

definition admittedLate :: join_env where
  "admittedLate = \<lparr>launchOk = True, prepareOk = True, gotoOk = True, nameFieldOk = True,
     entryButtonOk = True, leaveButtonWait = showsAfter 8000, joinEventOk = True\<rparr>"

definition teamsAdmittedLate :: teams_join_env where
  "teamsAdmittedLate = \<lparr>teamsLaunchOk = True, teamsGotoOk = True, joinProcedureOk = True,
     teamsLeaveButtonWait = showsAfter 8000\<rparr>"

definition patientPolicy :: AutomaticLeave where
  "patientPolicy = \<lparr>waitingRoomTimeout = 10000, everyoneLeftTimeout = None,
     inactivityTimeout = 300000\<rparr>"

text \<open>A Zoom bot that has joined and not yet recorded; a Teams bot at the end of a meeting.\<close>

definition zoomJoined :: ZoomBot where
  "zoomJoined = \<lparr>zoomBrowser = Some 1, zoomPage = Some 2, zoomFile = None, zoomStream = None\<rparr>"

definition teamsRecording :: TeamsBot where
  "teamsRecording = \<lparr>teamsBrowser = Some 1, teamsPage = Some 2, teamsFile = Some 3,
     teamsStream = Some 4, teamsParticipants = [''MeetingBot'', ''Alice''],
     teamsTimeAloneStarted = None, ended = False\<rparr>"

text \<open>
  A Teams bot that has just joined (the constructor's empty roster, no instant recorded),
  and the first roster poll, at 1000 ms, that finds the bot alone; a later poll that finds
  Alice too; a poll whose \<^verbatim>\<open>page.evaluate\<close> throws.
\<close>

definition teamsJoined :: TeamsBot where
  "teamsJoined = \<lparr>teamsBrowser = Some 1, teamsPage = Some 2, teamsFile = Some 3,
     teamsStream = None, teamsParticipants = [], teamsTimeAloneStarted = None,
     ended = False\<rparr>"

definition pollAlone :: poll_env where
  "pollAlone = \<lparr>evaluated = Some [''MeetingBot''], pollNow = 1000, checkNow = 1001,
     pollClickOk = True, pollCloseOk = True\<rparr>"

definition pollWithAlice :: poll_env where
  "pollWithAlice = \<lparr>evaluated = Some [''MeetingBot'', ''Alice''], pollNow = 2000,
     checkNow = 2001, pollClickOk = True, pollCloseOk = True\<rparr>"

definition pollFails :: poll_env where
  "pollFails = \<lparr>evaluated = None, pollNow = 3000, checkNow = 3001, pollClickOk = True,
     pollCloseOk = True\<rparr>"

text \<open>
  Alice speaks at 0, 1000 and 2000 ms, once at 6000 ms and once at 10000 ms; Bob speaks
  at 500 and 700 ms.
\<close>

definition spokenEntries :: "activity_entry list" where
  "spokenEntries = [(''Alice'', 0, [1000, 2000, 6000, 10000]), (''Bob'', 500, [700])]"


section \<open>The tracker\<close>

lemma filter_absent_id:
  "id' p \<notin> id' ` set ps \<Longrightarrow> filter (\<lambda>q. id' q \<noteq> id' p) ps = ps"
  by (induction ps) auto

text \<open>
  C4, as the code has it. The join callback appends without looking at the roster, so a
  second join with the same participant makes the roster one longer than a single join
  does. The leave callback with an id that is not in the roster resolves (when the leave
  event is delivered), leaves the roster as it was and changes no field of the bot other
  than \<^verbatim>\<open>timeAloneStarted\<close>.
\<close>

theorem join_appends_leave_absent_keeps_roster:
  "length (participants (snd (onParticipantJoin ok2 p (snd (onParticipantJoin ok1 p b)))))
     = length (participants (snd (onParticipantJoin ok1 p b))) + 1
   \<and> (id' p \<notin> id' ` set (participants b) \<longrightarrow>
        fst (onParticipantLeave True now p b) = Resolved ()
        \<and> participants (snd (onParticipantLeave True now p b)) = participants b
        \<and> (snd (onParticipantLeave True now p b))\<lparr>timeAloneStarted := timeAloneStarted b\<rparr> = b)"
  by (simp add: onParticipantJoin_def onParticipantLeave_def filter_absent_id)

theorem join_appends_leave_absent_keeps_roster_witness:
  "length (participants (snd (onParticipantJoin True alice (snd (onParticipantJoin True alice aloneBot))))) = 3
   \<and> length (participants (snd (onParticipantJoin True alice aloneBot))) = 2
   \<and> participants (snd (onParticipantLeave True 5000 bob aloneBot)) = [botSelf]
   \<and> fst (onParticipantLeave True 5000 bob aloneBot) = Resolved ()"
  using join_appends_leave_absent_keeps_roster [of True alice True aloneBot 5000]
    join_appends_leave_absent_keeps_roster [of True bob True aloneBot 5000]
  by (simp add: onParticipantJoin_def aloneBot_def botSelf_def alice_def bob_def)

text \<open>
  C4 as stated does not hold of the callbacks: joining Alice twice gives a roster of
  three where one join gives two, and a leave of the absent Bob changes the state (the
  alone-start instant moves from 1000 to 5000).
\<close>

theorem duplicate_join_grows_roster:
  "length (participants (snd (onParticipantJoin True alice (snd (onParticipantJoin True alice aloneBot)))))
     \<noteq> length (participants (snd (onParticipantJoin True alice aloneBot)))
   \<and> snd (onParticipantLeave True 5000 bob aloneBot) \<noteq> aloneBot"
  by (simp add: onParticipantJoin_def onParticipantLeave_def aloneBot_def botSelf_def
      alice_def bob_def)

text \<open>Leaving and cleaning up do not touch the Teams tracker's fields.\<close>

lemma teamsEndLife_keeps_tracker:
  "teamsTimeAloneStarted (fst (snd (teamsEndLife closeOk t))) = teamsTimeAloneStarted t"
  by (simp add: teamsEndLife_def Let_def split: option.splits)

lemma teamsLeave_keeps_tracker:
  "teamsTimeAloneStarted (fst (snd (teamsLeave clickOk closeOk t))) = teamsTimeAloneStarted t"
proof (cases "teamsEndLife closeOk t")
  case (fields r t1 fx)
  then have "teamsTimeAloneStarted t1 = teamsTimeAloneStarted t"
    using teamsEndLife_keeps_tracker [of closeOk t] by simp
  with fields show ?thesis by (simp add: teamsLeave_def split: option.splits)
qed

lemma aloneCheck_keeps_tracker:
  "teamsTimeAloneStarted (fst (snd (aloneCheck al now clickOk closeOk t)))
     = teamsTimeAloneStarted t"
  by (simp add: aloneCheck_def teamsLeave_keeps_tracker)

lemma updateParticipants_alone_start:
  "teamsTimeAloneStarted (fst (updateParticipants al env t))
     = (case evaluated env of
          None \<Rightarrow> teamsTimeAloneStarted t
        | Some current \<Rightarrow>
            (if length current > 1 then None
             else (case teamsTimeAloneStarted t of
                     None \<Rightarrow> Some (pollNow env)
                   | Some s \<Rightarrow> Some s)))"
proof (cases "evaluated env")
  case None
  then show ?thesis by (simp add: updateParticipants_def)
next
  case (Some current)
  define t1 where "t1 = t\<lparr>teamsParticipants := current,
      teamsTimeAloneStarted :=
        (if length current > 1 then None
         else (case teamsTimeAloneStarted t of None \<Rightarrow> Some (pollNow env) | Some s \<Rightarrow> Some s))\<rparr>"
  have "teamsTimeAloneStarted (fst (updateParticipants al env t))
          = teamsTimeAloneStarted
              (fst (snd (aloneCheck al (checkNow env) (pollClickOk env) (pollCloseOk env) t1)))"
    by (simp add: updateParticipants_def Some t1_def Let_def split: prod.splits)
  also have "\<dots> = teamsTimeAloneStarted t1" by (rule aloneCheck_keeps_tracker)
  finally show ?thesis by (simp add: Some t1_def)
qed

text \<open>
  C3, as the code has it. In the Meet tracker the join callback never writes
  \<^verbatim>\<open>timeAloneStarted\<close>; every leave callback whose event is delivered sets it to the
  current time when the roster it leaves behind has exactly one entry and to never-alone
  otherwise; a leave whose event is not delivered changes nothing. In the Teams tracker
  a roster poll clears the instant when the polled roster has more than one entry, sets
  it to the current time when the polled roster has at most one entry and no instant is
  recorded, keeps a recorded instant when the polled roster has at most one entry, and
  changes nothing when the poll fails.
\<close>

theorem alone_start_by_leave_and_poll:
  "timeAloneStarted (snd (onParticipantJoin ok p b)) = timeAloneStarted b
   \<and> timeAloneStarted (snd (onParticipantLeave True now p b))
       = (if length (participants (snd (onParticipantLeave True now p b))) = 1
          then Some now else None)
   \<and> snd (onParticipantLeave False now p b) = b
   \<and> (evaluated env = Some current \<and> length current > 1 \<longrightarrow>
        teamsTimeAloneStarted (fst (updateParticipants al env t)) = None)
   \<and> (evaluated env = Some current \<and> length current \<le> 1 \<and> teamsTimeAloneStarted t = None \<longrightarrow>
        teamsTimeAloneStarted (fst (updateParticipants al env t)) = Some (pollNow env))
   \<and> (evaluated env = Some current \<and> length current \<le> 1 \<and> teamsTimeAloneStarted t = Some s \<longrightarrow>
        teamsTimeAloneStarted (fst (updateParticipants al env t)) = Some s)
   \<and> (evaluated env = None \<longrightarrow>
        teamsTimeAloneStarted (fst (updateParticipants al env t)) = teamsTimeAloneStarted t)"
  by (simp add: onParticipantJoin_def onParticipantLeave_def Let_def
      updateParticipants_alone_start)

theorem alone_start_by_leave_and_poll_witness:
  "timeAloneStarted (snd (onParticipantJoin True alice aloneBot)) = Some 1000
   \<and> timeAloneStarted (snd (onParticipantLeave True 7000 alice crowdedBot)) = Some 7000
   \<and> timeAloneStarted (snd (onParticipantLeave True 7000 bob crowdedBot)) = None
   \<and> teamsTimeAloneStarted (fst (updateParticipants leavePolicy pollAlone teamsJoined)) = Some 1000
   \<and> teamsTimeAloneStarted
        (fst (updateParticipants leavePolicy pollWithAlice
                (teamsJoined\<lparr>teamsTimeAloneStarted := Some 1000\<rparr>))) = None
   \<and> teamsTimeAloneStarted
        (fst (updateParticipants leavePolicy pollAlone
                (teamsJoined\<lparr>teamsTimeAloneStarted := Some 500\<rparr>))) = Some 500
   \<and> teamsTimeAloneStarted
        (fst (updateParticipants leavePolicy pollFails
                (teamsJoined\<lparr>teamsTimeAloneStarted := Some 500\<rparr>))) = Some 500"
  using alone_start_by_leave_and_poll
      [of True alice aloneBot 7000 pollAlone "[''MeetingBot'']" leavePolicy teamsJoined 500]
    alone_start_by_leave_and_poll
      [of True alice crowdedBot 7000 pollWithAlice "[''MeetingBot'', ''Alice'']" leavePolicy
          "teamsJoined\<lparr>teamsTimeAloneStarted := Some 1000\<rparr>" 1000]
    alone_start_by_leave_and_poll
      [of True bob crowdedBot 7000 pollAlone "[''MeetingBot'']" leavePolicy
          "teamsJoined\<lparr>teamsTimeAloneStarted := Some 500\<rparr>" 500]
    alone_start_by_leave_and_poll
      [of True bob crowdedBot 7000 pollFails "[]" leavePolicy
          "teamsJoined\<lparr>teamsTimeAloneStarted := Some 500\<rparr>" 500]
  by (simp add: onParticipantJoin_def onParticipantLeave_def aloneBot_def crowdedBot_def
      botSelf_def alice_def bob_def pollAlone_def pollWithAlice_def pollFails_def
      teamsJoined_def)

text \<open>
  C3 as stated does not hold. In the Meet tracker: when Alice joins the bot that has been
  alone since 1000, the roster goes from one to two and the alone-start instant stays
  1000 (it is not cleared); and a leave of the absent Bob, which keeps the roster at
  one, sets the instant anew to 5000. In the Teams tracker: the first poll of the bot
  that has just joined takes the roster from none to one, never from above one, and
  sets the instant.
\<close>

theorem join_while_alone_keeps_alone_start:
  "length (participants aloneBot) = 1
   \<and> length (participants (snd (onParticipantJoin True alice aloneBot))) = 2
   \<and> timeAloneStarted (snd (onParticipantJoin True alice aloneBot)) = Some 1000
   \<and> length (participants (snd (onParticipantLeave True 5000 bob aloneBot))) = 1
   \<and> timeAloneStarted (snd (onParticipantLeave True 5000 bob aloneBot)) = Some 5000
   \<and> length (teamsParticipants teamsJoined) = 0
   \<and> teamsTimeAloneStarted teamsJoined = None
   \<and> length (teamsParticipants (fst (updateParticipants leavePolicy pollAlone teamsJoined))) = 1
   \<and> teamsTimeAloneStarted (fst (updateParticipants leavePolicy pollAlone teamsJoined)) = Some 1000"
  by (simp add: onParticipantJoin_def onParticipantLeave_def aloneBot_def botSelf_def
      alice_def bob_def updateParticipants_def aloneCheck_def pollAlone_def teamsJoined_def
      leavePolicy_def)

section \<open>The termination loop\<close>

lemma kickedTick_checkKicked: "checkKicked (probes kickedTick)"
  by (simp add: checkKicked_def kickedTick_def)

lemma crowdedBot_inactive: "inactivityDue leavePolicy (nowActivityCheck kickedTick) crowdedBot"
  by (simp add: inactivityDue_def kickedTick_def crowdedBot_def leavePolicy_def)

lemma aloneBot_alone_due: "aloneTimeoutDue leavePolicy (nowAloneCheck kickedTick) aloneBot"
  by (simp add: aloneTimeoutDue_def kickedTick_def aloneBot_def leavePolicy_def)

text \<open>
  C5, as the code has it. In an iteration in which \<^verbatim>\<open>checkKicked\<close> is true: when the
  inactivity timeout is due as well, the loop exits on Kicked and sets the flag; when
  the alone timeout is not due, it exits on Kicked; when the alone timeout is due, it
  exits on the alone timeout, which is tested first, and the flag is left alone.
\<close>

theorem kicked_after_alone_before_inactivity:
  "(checkKicked (probes env) \<and> inactivityDue al (nowActivityCheck env) b \<longrightarrow>
      loopIteration al env b = (Break Kicked, b\<lparr>kicked := True\<rparr>))
   \<and> (checkKicked (probes env) \<and> \<not> aloneTimeoutDue al (nowAloneCheck env) b \<longrightarrow>
      loopIteration al env b = (Break Kicked, b\<lparr>kicked := True\<rparr>))
   \<and> (checkKicked (probes env) \<and> aloneTimeoutDue al (nowAloneCheck env) b \<longrightarrow>
      loopIteration al env b = (Break AloneTimeout, b))"
  by (auto simp add: loopIteration_def aloneTimeoutDue_def inactivityDue_def)

theorem kicked_after_alone_before_inactivity_witness:
  "loopIteration leavePolicy kickedTick crowdedBot = (Break Kicked, crowdedBot\<lparr>kicked := True\<rparr>)
   \<and> loopIteration leavePolicy kickedTick aloneBot = (Break AloneTimeout, aloneBot)"
  using kicked_after_alone_before_inactivity [of kickedTick leavePolicy crowdedBot]
    kicked_after_alone_before_inactivity [of kickedTick leavePolicy aloneBot]
    kickedTick_checkKicked crowdedBot_inactive aloneBot_alone_due
  by simp

text \<open>
  C5 as stated does not hold: in the iteration \<open>kickedTick\<close> of the bot that has been
  alone for longer than the policy allows, the removal signals are on the page and the
  alone timeout is due; the loop exits on the alone timeout and \<^verbatim>\<open>kicked\<close> stays false.
\<close>

theorem alone_timeout_wins_over_kicked:
  "checkKicked (probes kickedTick)
   \<and> aloneTimeoutDue leavePolicy (nowAloneCheck kickedTick) aloneBot
   \<and> fst (loopIteration leavePolicy kickedTick aloneBot) = Break AloneTimeout
   \<and> fst (loopIteration leavePolicy kickedTick aloneBot) \<noteq> Break Kicked
   \<and> kicked (snd (loopIteration leavePolicy kickedTick aloneBot)) = False"
  by (simp add: loopIteration_def aloneTimeoutDue_def checkKicked_def kickedTick_def
      aloneBot_def leavePolicy_def)

section \<open>Leaving after a forced removal\<close>

text \<open>Whatever made the loop stop, \<^verbatim>\<open>leaveMeeting\<close> starts with the click on the leave button.\<close>

lemma leaveMeeting_always_clicks:
  "page b = Some pg \<Longrightarrow> hd (snd (snd (leaveMeeting ok env b))) = ClickLeave"
  by (simp add: leaveMeeting_def Let_def split: prod.splits outcome.splits)

text \<open>So does every run of the loop that ends on Kicked, for a bot with a page.\<close>

lemma kicked_run_clicks_leave:
  assumes "terminationLoop al run = Some (Break Kicked, b)" and "page b = Some pg"
  shows "\<exists>r b1 fx. meetingActionsFromLoop al run ok env1 env2 = Some (r, b1, ClickLeave # fx)"
  using assms
  by (simp add: meetingActionsFromLoop_def exitActions_def leaveMeeting_def Let_def
      split: prod.splits outcome.splits)

text \<open>
  C1 says that a session whose loop exits on Kicked ends without a click on the leave
  control, and that cleanup still runs. The constructor's comment on \<^verbatim>\<open>kicked\<close> says the
  same (no need to click the exit button), but nothing reads the flag: for the bot in a
  meeting with Alice whose loop exits on Kicked in its first iteration, the exit
  actions click the leave button, then interrupt the encoder and close the browser.
\<close>

theorem kicked_session_still_clicks_leave:
  "terminationLoop leavePolicy [(kickedTick, crowdedBot)]
     = Some (Break Kicked, crowdedBot\<lparr>kicked := True\<rparr>)
   \<and> meetingActionsFromLoop leavePolicy [(kickedTick, crowdedBot)] False cleanExit cleanExit
     = Some (Resolved 0, crowdedBot\<lparr>kicked := True, ffmpegProcess := None\<rparr>,
             [ClickLeave, KillSigint 7, CloseBrowser])"
  by (simp add: meetingActionsFromLoop_def exitActions_def leaveMeeting_def endLife_def
      stopRecording_def loopIteration_def aloneTimeoutDue_def checkKicked_def kickedTick_def
      crowdedBot_def leavePolicy_def cleanExit_def)

section \<open>Recording\<close>

text \<open>
  Once the interrupt is handed to the process, or without a stored process,
  \<^verbatim>\<open>stopRecording\<close> does not reject: without a process it resolves with 1 whatever the
  encoder does; otherwise the first event of the encoder resolves it, with 0 for an exit
  with code 0 and with 1 for any other exit and for an error.
\<close>

lemma stopRecording_signalled:
  "fst (stopRecording Signalled ev b) \<noteq> Rejected
   \<and> (ffmpegProcess b = None \<longrightarrow> stopRecording killed ev b = (Resolved 1, b, []))
   \<and> (ffmpegProcess b = Some p \<longrightarrow>
        stopRecording Signalled (Some (Exit (Some 0))) b
          = (Resolved 0, b\<lparr>ffmpegProcess := None\<rparr>, [KillSigint p]))
   \<and> (ffmpegProcess b = Some p \<and> code \<noteq> Some 0 \<longrightarrow>
        stopRecording Signalled (Some (Exit code)) b
          = (Resolved 1, b\<lparr>ffmpegProcess := None\<rparr>, [KillSigint p]))
   \<and> (ffmpegProcess b = Some p \<longrightarrow>
        stopRecording Signalled (Some Error) b = (Resolved 1, b, [KillSigint p]))"
  by (auto simp add: stopRecording_def split: option.splits encoder_event.splits)

text \<open>
  C6 says that \<^verbatim>\<open>stopRecording\<close> never throws and resolves with a failure status when
  the encoder errors. The listener that would do so (line 527, resolving with 1) is
  attached after the kill: for the bot recording with process 7, a kill that fails
  rejects the promise, so \<^verbatim>\<open>stopRecording\<close> throws, and so does the cleanup that awaits it.
\<close>

theorem stopRecording_rejects_when_kill_fails:
  "stopRecording KillFailed None crowdedBot = (Rejected, crowdedBot, [KillSigint 7])
   \<and> endLife (cleanExit\<lparr>killResult := KillFailed\<rparr>) crowdedBot
       = (Rejected, crowdedBot, [KillSigint 7])
   \<and> stopRecording Signalled None freshBot = (Resolved 1, freshBot, [])
   \<and> stopRecording Signalled (Some (Exit (Some 0))) crowdedBot
       = (Resolved 0, crowdedBot\<lparr>ffmpegProcess := None\<rparr>, [KillSigint 7])
   \<and> stopRecording Signalled (Some (Exit (Some 255))) crowdedBot
       = (Resolved 1, crowdedBot\<lparr>ffmpegProcess := None\<rparr>, [KillSigint 7])"
  by (simp add: stopRecording_def endLife_def cleanExit_def crowdedBot_def freshBot_def)

text \<open>The Meet bot's \<^verbatim>\<open>startRecording\<close> does nothing while a process is stored.\<close>

lemma startRecording_running_noop:
  "ffmpegProcess b = Some p \<Longrightarrow> startRecording q b = (b, [])"
  by (simp add: startRecording_def)

text \<open>The Zoom bot's \<^verbatim>\<open>startRecording\<close> does the same whether or not a stream is stored.\<close>

lemma zoomStartRecording_ignores_stream:
  "zoomPage z = Some pg \<Longrightarrow>
   zoomStartRecording (Some s) f z
     = (Resolved (), z\<lparr>zoomStream := Some s, zoomFile := Some f\<rparr>,
        [GetStream s, CreateWriteStream f])"
  by (simp add: zoomStartRecording_def)

text \<open>
  C7 says that a second \<^verbatim>\<open>startRecording\<close> during a recording has no effect beyond a
  log and creates no second capture stream. The Meet bot does that. The Zoom bot and
  the Teams bot do not: a second call on a bot that is recording asks for a second
  stream and a second file and overwrites the stored ones.
\<close>

theorem second_start_creates_second_stream:
  "zoomStartRecording (Some 10) 11 zoomJoined
     = (Resolved (), zoomJoined\<lparr>zoomStream := Some 10, zoomFile := Some 11\<rparr>,
        [GetStream 10, CreateWriteStream 11])
   \<and> zoomStartRecording (Some 20) 21 (zoomJoined\<lparr>zoomStream := Some 10, zoomFile := Some 11\<rparr>)
     = (Resolved (), zoomJoined\<lparr>zoomStream := Some 20, zoomFile := Some 21\<rparr>,
        [GetStream 20, CreateWriteStream 21])
   \<and> teamsStartRecording (Some 20) 21 teamsRecording
     = (Resolved (), teamsRecording\<lparr>teamsStream := Some 20, teamsFile := Some 21\<rparr>,
        [GetStream 20, CreateWriteStream 21])
   \<and> startRecording 8 crowdedBot = (crowdedBot, [])"
  by (simp add: zoomStartRecording_def zoomJoined_def teamsStartRecording_def
      teamsRecording_def startRecording_def crowdedBot_def)

section \<open>Cleanup\<close>

text \<open>On a bot without browser and encoder the Meet cleanup does nothing and resolves.\<close>

lemma endLife_partial_state:
  "ffmpegProcess b = None \<Longrightarrow> browser b = None \<Longrightarrow> endLife env b = (Resolved (), b, [])"
  by (simp add: endLife_def stopRecording_def)

text \<open>
  The Meet cleanup never clears \<^verbatim>\<open>browser\<close>: once the encoder is gone, every call closes
  the browser, and the call resolves exactly when the close does.
\<close>

lemma endLife_closes_on_every_call:
  "ffmpegProcess b = None \<Longrightarrow> browser b = Some br \<Longrightarrow>
   endLife env b = (if browserCloseOk env then Resolved () else Rejected, b, [CloseBrowser])"
  by (simp add: endLife_def stopRecording_def)

text \<open>The Teams cleanup is guarded by \<^verbatim>\<open>ended\<close>: a second call does nothing.\<close>

lemma teamsEndLife_second_call_noop:
  "teamsEndLife ok2 (fst (snd (teamsEndLife ok1 t)))
     = (Resolved (), fst (snd (teamsEndLife ok1 t)), [])"
  by (simp add: teamsEndLife_def Let_def split: option.splits)

text \<open>
  C8 says that cleanup never throws and that a second invocation after a completed
  first one repeats no destructive action. The Meet bot's \<^verbatim>\<open>endLife\<close> resolves on the bot
  that never launched a browser, but it has no guard against a second call and no
  \<^verbatim>\<open>try\<close> around \<^verbatim>\<open>browser.close()\<close>: after a first cleanup that interrupted the encoder
  and closed the browser, a second one closes the browser again, and it rejects when
  that call rejects.
\<close>

theorem second_endLife_closes_browser_again:
  "endLife cleanExit crowdedBot
     = (Resolved (), crowdedBot\<lparr>ffmpegProcess := None\<rparr>, [KillSigint 7, CloseBrowser])
   \<and> endLife cleanExit (crowdedBot\<lparr>ffmpegProcess := None\<rparr>)
     = (Resolved (), crowdedBot\<lparr>ffmpegProcess := None\<rparr>, [CloseBrowser])
   \<and> endLife closeFails (crowdedBot\<lparr>ffmpegProcess := None\<rparr>)
     = (Rejected, crowdedBot\<lparr>ffmpegProcess := None\<rparr>, [CloseBrowser])
   \<and> endLife cleanExit freshBot = (Resolved (), freshBot, [])"
  by (simp add: endLife_def stopRecording_def crowdedBot_def cleanExit_def closeFails_def
      freshBot_def)

section \<open>Joining\<close>

text \<open>
  C10. \<^verbatim>\<open>joinMeeting\<close> fails with \<^verbatim>\<open>WaitingRoomTimeoutError\<close> exactly when the join
  procedure has reached the wait for the leave button and that wait, bounded by
  \<^verbatim>\<open>waitingRoomTimeout\<close>, does not deliver the button; a failure of an earlier step or of
  the join event is another error. The same holds of the Teams bot.
\<close>

theorem waiting_room_timeout_iff_leave_button_missing:
  "(joinMeeting al env = Inl WaitingRoomTimeoutError \<longleftrightarrow>
      launchOk env \<and> prepareOk env \<and> gotoOk env \<and> nameFieldOk env \<and> entryButtonOk env
      \<and> leaveButtonWait env (waitingRoomTimeout al) \<noteq> Appeared)
   \<and> (teamsJoinMeeting al tenv = Inl WaitingRoomTimeoutError \<longleftrightarrow>
      teamsLaunchOk tenv \<and> teamsGotoOk tenv \<and> joinProcedureOk tenv
      \<and> teamsLeaveButtonWait tenv (waitingRoomTimeout al) \<noteq> Appeared)"
  by (auto simp add: joinMeeting_def teamsJoinMeeting_def split: wait_result.splits)

theorem waiting_room_timeout_iff_leave_button_missing_witness:
  "joinMeeting leavePolicy admittedLate = Inl WaitingRoomTimeoutError
   \<and> teamsJoinMeeting leavePolicy teamsAdmittedLate = Inl WaitingRoomTimeoutError
   \<and> joinMeeting patientPolicy admittedLate = Inr 0
   \<and> teamsJoinMeeting patientPolicy teamsAdmittedLate = Inr ()
   \<and> joinMeeting leavePolicy (admittedLate\<lparr>nameFieldOk := False\<rparr>) = Inl OtherError"
  using waiting_room_timeout_iff_leave_button_missing [of leavePolicy admittedLate teamsAdmittedLate]
    waiting_room_timeout_iff_leave_button_missing [of patientPolicy admittedLate teamsAdmittedLate]
    waiting_room_timeout_iff_leave_button_missing
      [of leavePolicy "admittedLate\<lparr>nameFieldOk := False\<rparr>" teamsAdmittedLate]
  by (simp add: joinMeeting_def teamsJoinMeeting_def admittedLate_def teamsAdmittedLate_def
      leavePolicy_def patientPolicy_def showsAfter_def)

section \<open>Speaker timeframes\<close>

subsection \<open>The sort\<close>

lemma mset_insertBy: "mset (insertBy cmp x xs) = add_mset x (mset xs)"
  by (induction xs) simp_all

lemma mset_arraySort: "mset (arraySort cmp xs) = mset xs"
  by (induction xs) (simp_all add: mset_insertBy)

lemma set_arraySort: "set (arraySort cmp xs) = set xs"
  using mset_arraySort [of cmp xs] by (metis set_mset_mset)

lemma compare_le_iff: "compareTimeframes a b \<le> 0 \<longleftrightarrow> timeframe_le a b"
  by (auto simp add: compareTimeframes_def timeframe_le_def)

lemma timeframe_le_total: "\<not> timeframe_le a b \<Longrightarrow> timeframe_le b a"
  by (auto simp add: timeframe_le_def)

lemma timeframe_le_trans: "timeframe_le a b \<Longrightarrow> timeframe_le b c \<Longrightarrow> timeframe_le a c"
  by (auto simp add: timeframe_le_def)

lemma sorted_insertBy:
  "sorted_wrt timeframe_le xs \<Longrightarrow> sorted_wrt timeframe_le (insertBy compareTimeframes x xs)"
proof (induction xs)
  case Nil
  show ?case by simp
next
  case (Cons y ys)
  show ?case
  proof (cases "compareTimeframes x y \<le> 0")
    case True
    then have xy: "timeframe_le x y" by (simp add: compare_le_iff)
    have "\<forall>z\<in>set ys. timeframe_le x z"
      using Cons.prems xy by (auto intro: timeframe_le_trans)
    with True xy Cons.prems show ?thesis by simp
  next
    case False
    then have yx: "timeframe_le y x"
      by (simp add: compare_le_iff timeframe_le_total)
    have "set (insertBy compareTimeframes x ys) = insert x (set ys)"
      using mset_insertBy [of compareTimeframes x ys] by (metis set_mset_mset set_mset_add_mset_insert)
    with False yx Cons show ?thesis by auto
  qed
qed

lemma sorted_arraySort: "sorted_wrt timeframe_le (arraySort compareTimeframes xs)"
  by (induction xs) (simp_all add: sorted_insertBy)

subsection \<open>The loops\<close>

lemma speakerLoop_acc:
  "speakerLoop n s e ts acc = acc @ speakerLoop n s e ts []"
proof (induction ts arbitrary: s e acc)
  case Nil
  show ?case by simp
next
  case (Cons t ts)
  show ?case
    using Cons.IH [of s t acc] Cons.IH [of t t acc]
      Cons.IH [of t t "acc @ [\<lparr>speakerName = n, start = s, end' = e\<rparr>]"]
      Cons.IH [of t t "[\<lparr>speakerName = n, start = s, end' = e\<rparr>]"]
    by simp
qed

lemma entriesLoop_acc:
  "entriesLoop es acc
     = acc @ concat (map (\<lambda>(n, t0, rest). speakerLoop n t0 t0 rest []) es)"
proof (induction es arbitrary: acc)
  case Nil
  show ?case by simp
next
  case (Cons en es)
  obtain n t0 rest where en: "en = (n, t0, rest)" by (cases en) auto
  show ?case
    using Cons.IH [of "speakerLoop n t0 t0 rest acc"] speakerLoop_acc [of n t0 t0 rest acc]
    by (simp add: en)
qed

subsection \<open>Runs\<close>

lemma spec_segments_nonempty: "spec_segments (t # ts) \<noteq> []"
  by (induction ts arbitrary: t) (auto split: list.splits)

lemma spec_segments_hd: "hd (spec_segments (t # ts)) \<noteq> [] \<and> hd (hd (spec_segments (t # ts))) = t"
  by (induction ts arbitrary: t) (auto split: list.splits)

lemma spec_segments_groups_nonempty: "g \<in> set (spec_segments ts) \<Longrightarrow> g \<noteq> []"
  by (induction ts arbitrary: g rule: spec_segments.induct) (auto split: list.splits if_splits)

lemma concat_spec_segments: "concat (spec_segments ts) = ts"
  by (induction ts rule: spec_segments.induct) (auto split: list.splits)

lemma close_chain_Cons:
  "g \<noteq> [] \<Longrightarrow> close_chain (t # g) = (hd g - t < 3000 \<and> close_chain g)"
  by (cases g) simp_all

lemma spec_segments_close: "g \<in> set (spec_segments ts) \<Longrightarrow> close_chain g"
proof (induction ts arbitrary: g rule: spec_segments.induct)
  case 1
  then show ?case by simp
next
  case (2 t)
  then show ?case by simp
next
  case (3 t u us)
  obtain h hs where seg: "spec_segments (u # us) = h # hs"
    using spec_segments_nonempty [of u us] by (cases "spec_segments (u # us)") auto
  have h: "h \<noteq> [] \<and> hd h = u"
    using spec_segments_hd [of u us] by (simp add: seg)
  show ?case
  proof (cases "u - t < 3000")
    case True
    with "3.prems" seg have "g = t # h \<or> g \<in> set hs" by auto
    then show ?thesis
    proof
      assume "g = t # h"
      moreover have "close_chain h" using "3.IH"(1) [OF True, of h] seg by simp
      ultimately show ?thesis using h True by (simp add: close_chain_Cons)
    next
      assume "g \<in> set hs"
      then show ?thesis using "3.IH"(1) [OF True, of g] seg by simp
    qed
  next
    case False
    with "3.prems" have "g = [t] \<or> g \<in> set (spec_segments (u # us))" by auto
    then show ?thesis using "3.IH"(2) [OF False, of g] by auto
  qed
qed

lemma wide_gaps_extend_first:
  "g \<noteq> [] \<Longrightarrow> wide_gaps (g # gs) \<Longrightarrow> wide_gaps ((t # g) # gs)"
  by (cases gs) simp_all

lemma spec_segments_wide: "wide_gaps (spec_segments ts)"
proof (induction ts rule: spec_segments.induct)
  case 1
  show ?case by simp
next
  case (2 t)
  show ?case by simp
next
  case (3 t u us)
  obtain h hs where seg: "spec_segments (u # us) = h # hs"
    using spec_segments_nonempty [of u us] by (cases "spec_segments (u # us)") auto
  have h: "h \<noteq> [] \<and> hd h = u"
    using spec_segments_hd [of u us] by (simp add: seg)
  show ?case
  proof (cases "u - t < 3000")
    case True
    then show ?thesis using "3.IH"(1) [OF True] seg h by (simp add: wide_gaps_extend_first)
  next
    case False
    then show ?thesis using "3.IH"(2) [OF False] seg h by simp
  qed
qed

subsection \<open>The loop computes the specification\<close>

lemma spec_emitted_Cons:
  "ivs \<noteq> [] \<Longrightarrow>
   spec_emitted (iv # ivs) = (if snd iv - fst iv > 500 then [iv] else []) @ spec_emitted ivs"
  by (simp add: spec_emitted_def)

lemma speakerLoop_spec:
  "speakerLoop n s e ts [] =
     map (\<lambda>iv. \<lparr>speakerName = n, start = fst iv, end' = snd iv\<rparr>)
       (spec_emitted ((s, snd (hd (map spec_interval (spec_segments (e # ts)))))
                      # tl (map spec_interval (spec_segments (e # ts)))))"
proof (induction ts arbitrary: s e)
  case Nil
  show ?case by (simp add: spec_emitted_def spec_interval_def)
next
  case (Cons u us)
  define ivs where "ivs = map spec_interval (spec_segments (u # us))"
  obtain h hs where seg: "spec_segments (u # us) = h # hs"
    using spec_segments_nonempty [of u us] by (cases "spec_segments (u # us)") auto
  have h: "h \<noteq> [] \<and> hd h = u"
    using spec_segments_hd [of u us] by (simp add: seg)
  have sih: "spec_interval h = (u, last h)" "spec_interval (e # h) = (e, last h)"
    "spec_interval [e] = (e, e)"
    using h by (simp_all add: spec_interval_def)
  have ivs: "ivs = (u, last h) # map spec_interval hs"
    by (simp add: ivs_def seg sih)
  have IH: "speakerLoop n s' u us [] =
      map (\<lambda>iv. \<lparr>speakerName = n, start = fst iv, end' = snd iv\<rparr>)
        (spec_emitted ((s', last h) # map spec_interval hs))" for s'
    using Cons.IH [of s' u] by (simp add: seg sih)
  show ?case
  proof (cases "u - e < 3000")
    case True
    have "map spec_interval (spec_segments (e # u # us)) = (e, last h) # map spec_interval hs"
      using True by (simp add: seg sih)
    then show ?thesis
      using True IH [of s] by (simp add: utteranceThresholdMs_def)
  next
    case False
    have "map spec_interval (spec_segments (e # u # us)) = (e, e) # ivs"
      using False by (simp add: ivs_def sih)
    then have arg: "(s, snd (hd (map spec_interval (spec_segments (e # u # us)))))
                      # tl (map spec_interval (spec_segments (e # u # us))) = (s, e) # ivs"
      by simp
    have emitted: "spec_emitted ((s, e) # ivs)
                     = (if e - s > 500 then [(s, e)] else []) @ spec_emitted ivs"
      by (rule spec_emitted_Cons [of ivs "(s, e)", simplified]) (simp add: ivs)
    have later: "speakerLoop n u u us [] =
        map (\<lambda>iv. \<lparr>speakerName = n, start = fst iv, end' = snd iv\<rparr>) (spec_emitted ivs)"
      using IH [of u] by (simp add: ivs)
    show ?thesis
    proof (cases "e - s > 500")
      case True
      have "speakerLoop n s e (u # us) []
              = speakerLoop n u u us [\<lparr>speakerName = n, start = s, end' = e\<rparr>]"
        using False True by (simp add: utteranceThresholdMs_def)
      also have "\<dots> = \<lparr>speakerName = n, start = s, end' = e\<rparr> # speakerLoop n u u us []"
        using speakerLoop_acc [of n u u us "[\<lparr>speakerName = n, start = s, end' = e\<rparr>]"] by simp
      finally show ?thesis
        unfolding arg emitted later using True by simp
    next
      case short: False
      have "speakerLoop n s e (u # us) [] = speakerLoop n u u us []"
        using False short by (simp add: utteranceThresholdMs_def)
      then show ?thesis
        unfolding arg emitted later using short by simp
    qed
  qed
qed

lemma speakerLoop_is_spec:
  "speakerLoop n t0 t0 rest [] = spec_timeframes n (t0 # rest)"
proof -
  obtain h hs where seg: "spec_segments (t0 # rest) = h # hs"
    using spec_segments_nonempty [of t0 rest] by (cases "spec_segments (t0 # rest)") auto
  have h: "h \<noteq> [] \<and> hd h = t0"
    using spec_segments_hd [of t0 rest] by (simp add: seg)
  have "(t0, snd (hd (map spec_interval (spec_segments (t0 # rest)))))
          # tl (map spec_interval (spec_segments (t0 # rest)))
        = map spec_interval (spec_segments (t0 # rest))"
    using seg h by (simp add: spec_interval_def)
  then show ?thesis
    using speakerLoop_spec [of n t0 t0 rest] by (simp add: spec_timeframes_def)
qed

lemma entriesLoop_is_spec:
  "entriesLoop es [] = concat (map (\<lambda>(n, t0, rest). spec_timeframes n (t0 # rest)) es)"
proof -
  have eq: "map (\<lambda>(n, t0, rest). speakerLoop n t0 t0 rest []) es
        = map (\<lambda>(n, t0, rest). spec_timeframes n (t0 # rest)) es"
    by (rule map_cong) (auto simp add: speakerLoop_is_spec)
  show ?thesis unfolding entriesLoop_acc [of es "[]"] eq by simp
qed

lemma speakerLoop_butlast_last:
  "butlast (speakerLoop n t0 t0 rest [])
     = map (\<lambda>iv. \<lparr>speakerName = n, start = fst iv, end' = snd iv\<rparr>)
         (filter (\<lambda>iv. snd iv - fst iv > 500)
            (butlast (map spec_interval (spec_segments (t0 # rest)))))
   \<and> last (speakerLoop n t0 t0 rest [])
     = \<lparr>speakerName = n, start = hd (last (spec_segments (t0 # rest))),
        end' = last (last (spec_segments (t0 # rest)))\<rparr>"
  using spec_segments_nonempty [of t0 rest]
  by (simp add: speakerLoop_is_spec spec_timeframes_def spec_emitted_def last_map
      spec_interval_def)

lemma speakerLoop_nonempty: "speakerLoop n s e ts [] \<noteq> []"
  using speakerLoop_spec [of n s e ts] by (simp add: spec_emitted_def)

lemma speakerLoop_butlast_long:
  "f \<in> set (butlast (speakerLoop n t0 t0 rest [])) \<Longrightarrow> end' f - start f > 500"
  by (auto simp add: speakerLoop_butlast_last)

lemma last_concat_last:
  "xss \<noteq> [] \<Longrightarrow> last xss \<noteq> [] \<Longrightarrow> last (concat xss) = last (last xss)"
proof (induction xss)
  case Nil
  then show ?case by simp
next
  case (Cons xs xss)
  show ?case
  proof (cases "xss = []")
    case True
    then show ?thesis by simp
  next
    case False
    then have "last xss \<in> set xss" by simp
    with Cons.prems False have "concat xss \<noteq> []" by auto
    with Cons False show ?thesis by simp
  qed
qed

lemma last_last_spec_segments: "last (last (spec_segments (t # ts))) = last (t # ts)"
proof -
  have ne: "spec_segments (t # ts) \<noteq> []" by (rule spec_segments_nonempty)
  have "last (spec_segments (t # ts)) \<noteq> []"
    using ne spec_segments_groups_nonempty [of "last (spec_segments (t # ts))" "t # ts"]
    by simp
  then have "last (concat (spec_segments (t # ts))) = last (last (spec_segments (t # ts)))"
    using ne by (simp add: last_concat_last)
  then show ?thesis by (simp add: concat_spec_segments)
qed

lemma set_getSpeakerTimeframes:
  "set (getSpeakerTimeframes entries)
     = (\<Union>(speaker, t0, rest) \<in> set entries. set (speakerLoop speaker t0 t0 rest []))"
  by (auto simp add: getSpeakerTimeframes_def set_arraySort entriesLoop_acc)

text \<open>
  C2. The timeframes that \<^verbatim>\<open>getSpeakerTimeframes\<close> returns are, speaker by speaker, the
  timeframes of the specification: the timestamps are cut into runs, two consecutive
  timestamps less than 3000 ms apart in the same run, a new run at every gap of 3000 ms
  or more (the runs concatenate to the sequence, every run is non-empty and close, and
  successive runs are 3000 ms or more apart), and of the runs those that the emission
  rule keeps become timeframes. The result holds exactly these timeframes, sorted
  ascending by \<open>(start, end)\<close>.
\<close>

theorem getSpeakerTimeframes_folds_and_sorts:
  "mset (getSpeakerTimeframes entries)
     = mset (concat (map (\<lambda>(speaker, t0, rest). spec_timeframes speaker (t0 # rest)) entries))
   \<and> sorted_wrt timeframe_le (getSpeakerTimeframes entries)
   \<and> concat (spec_segments ts) = ts
   \<and> (\<forall>g \<in> set (spec_segments ts). g \<noteq> [] \<and> close_chain g)
   \<and> wide_gaps (spec_segments ts)"
  by (simp add: getSpeakerTimeframes_def mset_arraySort sorted_arraySort entriesLoop_is_spec
      concat_spec_segments spec_segments_groups_nonempty spec_segments_close
      spec_segments_wide)

theorem getSpeakerTimeframes_folds_and_sorts_witness:
  "getSpeakerTimeframes spokenEntries
     = [\<lparr>speakerName = ''Alice'', start = 0, end' = 2000\<rparr>,
        \<lparr>speakerName = ''Bob'', start = 500, end' = 700\<rparr>,
        \<lparr>speakerName = ''Alice'', start = 10000, end' = 10000\<rparr>]
   \<and> spec_segments [0, 1000, 2000, 6000, 10000] = [[0, 1000, 2000], [6000], [10000]]
   \<and> sorted_wrt timeframe_le (getSpeakerTimeframes spokenEntries)
   \<and> close_chain [0, 1000, 2000]
   \<and> wide_gaps (spec_segments [0, 1000, 2000, 6000, 10000])"
  using getSpeakerTimeframes_folds_and_sorts [of spokenEntries "[0, 1000, 2000, 6000, 10000]"]
  by (simp add: getSpeakerTimeframes_def spokenEntries_def compareTimeframes_def
      utteranceThresholdMs_def)

text \<open>
  C9. A timeframe of the result whose duration is at most 500 ms is the last segment
  pushed for some speaker; every segment pushed for a speaker before the last one has
  a duration above 500 ms; the result holds the segments pushed for the speakers and
  nothing else; and the last segment of a speaker is the last run of the speaker's
  timestamps.
\<close>

theorem short_timeframe_only_as_final_segment:
  "(\<forall>f \<in> set (getSpeakerTimeframes entries). end' f - start f \<le> 500 \<longrightarrow>
      (\<exists>(speaker, t0, rest) \<in> set entries. f = last (speakerLoop speaker t0 t0 rest [])))
   \<and> (\<forall>(speaker, t0, rest) \<in> set entries.
        \<forall>f \<in> set (butlast (speakerLoop speaker t0 t0 rest [])). end' f - start f > 500)
   \<and> set (getSpeakerTimeframes entries)
       = (\<Union>(speaker, t0, rest) \<in> set entries. set (speakerLoop speaker t0 t0 rest []))
   \<and> last (speakerLoop speaker t0 t0 rest [])
       = \<lparr>speakerName = speaker, start = hd (last (spec_segments (t0 # rest))),
          end' = last (t0 # rest)\<rparr>"
proof -
  have short: "\<exists>(speaker, t0, rest) \<in> set entries. f = last (speakerLoop speaker t0 t0 rest [])"
    if f: "f \<in> set (getSpeakerTimeframes entries)" and d: "end' f - start f \<le> 500" for f
  proof -
    from f obtain n t0 rest where en: "(n, t0, rest) \<in> set entries"
      and mem: "f \<in> set (speakerLoop n t0 t0 rest [])"
      by (auto simp add: set_getSpeakerTimeframes)
    have "speakerLoop n t0 t0 rest []
            = butlast (speakerLoop n t0 t0 rest []) @ [last (speakerLoop n t0 t0 rest [])]"
      using speakerLoop_nonempty [of n t0 t0 rest] by simp
    then have "f \<in> set (butlast (speakerLoop n t0 t0 rest []))
                 \<or> f = last (speakerLoop n t0 t0 rest [])"
      using mem by (metis Un_iff empty_iff insert_iff list.set(1) list.set(2) set_append)
    then have "f = last (speakerLoop n t0 t0 rest [])"
      using speakerLoop_butlast_long [of f n t0 rest] d by auto
    with en show ?thesis by auto
  qed
  have long: "\<forall>(speaker, t0, rest) \<in> set entries.
        \<forall>f \<in> set (butlast (speakerLoop speaker t0 t0 rest [])). end' f - start f > 500"
    using speakerLoop_butlast_long by auto
  have final: "last (speakerLoop speaker t0 t0 rest [])
       = \<lparr>speakerName = speaker, start = hd (last (spec_segments (t0 # rest))),
          end' = last (t0 # rest)\<rparr>"
    using speakerLoop_butlast_last [of speaker t0 rest] last_last_spec_segments [of t0 rest]
    by simp
  show ?thesis
    using short long final set_getSpeakerTimeframes [of entries] by blast
qed

theorem short_timeframe_only_as_final_segment_witness:
  "\<lparr>speakerName = ''Bob'', start = 500, end' = 700\<rparr> \<in> set (getSpeakerTimeframes spokenEntries)
   \<and> last (speakerLoop ''Bob'' 500 500 [700] []) = \<lparr>speakerName = ''Bob'', start = 500, end' = 700\<rparr>
   \<and> butlast (speakerLoop ''Alice'' 0 0 [1000, 2000, 6000, 10000] [])
       = [\<lparr>speakerName = ''Alice'', start = 0, end' = 2000\<rparr>]
   \<and> last (speakerLoop ''Alice'' 0 0 [1000, 2000, 6000, 10000] [])
       = \<lparr>speakerName = ''Alice'', start = 10000, end' = 10000\<rparr>"
  using short_timeframe_only_as_final_segment [of spokenEntries "''Alice''" 0 "[1000, 2000, 6000, 10000]"]
  by (simp add: getSpeakerTimeframes_def spokenEntries_def compareTimeframes_def
      utteranceThresholdMs_def)

end
